theory Spec2Isabelle
  imports Main "HOL-Library.Word" "HOL-Library.Signed_Division"
begin

section \<open>The access benchmark \<open>bench/micro_load.c\<close>\<close>

text \<open>
  The program is a single \<open>main\<close>: it reads two numbers with \<open>atol\<close>, allocates
  \<open>size\<close> ints with \<open>malloc\<close>, stores \<open>A[i] = i\<close>, adds \<open>A[i % size]\<close> into the
  volatile int \<open>sink\<close> for \<open>i\<close> below \<open>N\<close>, and prints \<open>sink\<close> with \<open>printf("%d\n")\<close>.

  Machine model (LP64, two's complement): \<open>long\<close> and \<open>size_t\<close> have 64 bits, \<open>int\<close> has
  32 bits. A \<open>long\<close> is read through \<open>sint\<close> and the two loop counters are kept as
  \<open>int\<close>: a counter runs from 0 up to a bound that is itself a \<open>long\<close>, so \<open>i++\<close> never
  leaves the range of \<open>long\<close>. The conversion of a \<open>long\<close> to \<open>int\<close> in \<open>A[i] = i\<close> keeps
  the low 32 bits, and the addition into \<open>sink\<close> wraps around; both are what the usual
  compilers produce for this code.
\<close>

subsection \<open>Machine types and the C library\<close>

type_synonym long = "64 word"
type_synonym cint = "32 word"

text \<open>What the program can run into instead of reaching \<open>printf\<close>.\<close>

datatype fault = NullDeref | OutOfBounds | DivByZero

text \<open>
  The C library is outside the program. \<open>atol\<close> is taken as it is; \<open>malloc_ok n\<close> tells
  whether a request of \<open>n\<close> bytes is granted, and \<open>garbage\<close> gives the contents of the
  fresh block, which \<open>malloc\<close> does not clear.
\<close>

record libc =
  atol :: "string \<Rightarrow> long"
  malloc_ok :: "nat \<Rightarrow> bool"
  garbage :: "nat \<Rightarrow> cint"

definition sizeof_int :: nat where
  "sizeof_int = 4"

text \<open>A pointer to ints is \<open>None\<close> (the null pointer) or the block it points to.\<close>

type_synonym int_ptr = "cint list option"

definition malloc :: "libc \<Rightarrow> nat \<Rightarrow> int_ptr" where
  "malloc env n =
     (if malloc_ok env n then Some (map (garbage env) [0..<n div sizeof_int]) else None)"

text \<open>\<open>size * sizeof(int)\<close>: the \<open>long\<close> is converted to \<open>size_t\<close> and the product wraps.\<close>

definition size_bytes :: "int \<Rightarrow> nat" where
  "size_bytes sz = nat ((sz * int sizeof_int) mod 2 ^ 64)"

text \<open>\<open>A[i] = v\<close> and \<open>A[i]\<close>.\<close>

definition store :: "int_ptr \<Rightarrow> int \<Rightarrow> cint \<Rightarrow> fault + int_ptr" where
  "store A i v =
     (case A of
        None \<Rightarrow> Inl NullDeref
      | Some blk \<Rightarrow>
          if 0 \<le> i \<and> i < int (length blk) then Inr (Some (blk[nat i := v]))
          else Inl OutOfBounds)"

definition load :: "int_ptr \<Rightarrow> int \<Rightarrow> fault + cint" where
  "load A i =
     (case A of
        None \<Rightarrow> Inl NullDeref
      | Some blk \<Rightarrow>
          if 0 \<le> i \<and> i < int (length blk) then Inr (blk ! nat i)
          else Inl OutOfBounds)"

text \<open>\<open>printf("%d\n", v)\<close>.\<close>

definition digit_char :: "nat \<Rightarrow> char" where
  "digit_char d = ''0123456789'' ! d"

fun dec_nat :: "nat \<Rightarrow> string" where
  "dec_nat n =
     (if n < 10 then [digit_char n]
      else dec_nat (n div 10) @ [digit_char (n mod 10)])"

declare dec_nat.simps [simp del]

definition printf_d :: "int \<Rightarrow> string" where
  "printf_d v = (if v < 0 then CHR ''-'' # dec_nat (nat (- v)) else dec_nat (nat v))"

definition print_line :: "int \<Rightarrow> string" where
  "print_line v = printf_d v @ [CHR 0x0A]"

subsection \<open>The program\<close>

text \<open>\<open>long N = argc>1 ? atol(argv[1]) : 1000000; long size = argc>2 ? atol(argv[2]) : 10000000;\<close>\<close>

definition parse_args :: "libc \<Rightarrow> string list \<Rightarrow> int \<times> int" where
  "parse_args env argv =
     (let argc = length argv;
          N = (if argc > 1 then sint (atol env (argv ! 1)) else 1000000);
          sz = (if argc > 2 then sint (atol env (argv ! 2)) else 10000000)
      in (N, sz))"

text \<open>\<open>for(long i=0;i<size;i++) A[i]=i;\<close>\<close>

function init_loop :: "int \<Rightarrow> int \<Rightarrow> int_ptr \<Rightarrow> fault + int_ptr" where
  "init_loop i sz A =
     (if i < sz then
        (case store A i (word_of_int i) of
           Inl f \<Rightarrow> Inl f
         | Inr A' \<Rightarrow> init_loop (i + 1) sz A')
      else Inr A)"
  by pat_completeness auto
termination
  by (relation "measure (\<lambda>(i, sz, A). nat (sz - i))") auto

declare init_loop.simps [simp del]

text \<open>The memory the second loop works on: the block behind \<open>A\<close> and \<open>sink\<close>.\<close>

record state =
  A_mem :: int_ptr
  sink :: cint

text \<open>\<open>for(long i=0;i<N;i++){ sink += A[i % size]; }\<close>\<close>

function access_loop :: "int \<Rightarrow> int \<Rightarrow> int \<Rightarrow> state \<Rightarrow> fault + state" where
  "access_loop i N sz st =
     (if i < N then
        (if sz = 0 then Inl DivByZero
         else
           (case load (A_mem st) (i smod sz) of
              Inl f \<Rightarrow> Inl f
            | Inr v \<Rightarrow> access_loop (i + 1) N sz (st\<lparr>sink := sink st + v\<rparr>)))
      else Inr st)"
  by pat_completeness auto
termination
  by (relation "measure (\<lambda>(i, N, sz, st). nat (N - i))") auto

declare access_loop.simps [simp del]

text \<open>From \<open>malloc\<close> to the end of the second loop.\<close>

definition bench :: "libc \<Rightarrow> int \<Rightarrow> int \<Rightarrow> fault + state" where
  "bench env N sz =
     (case init_loop 0 sz (malloc env (size_bytes sz)) of
        Inl f \<Rightarrow> Inl f
      | Inr A \<Rightarrow> access_loop 0 N sz \<lparr>A_mem = A, sink = 0\<rparr>)"

record outcome =
  stdout :: string
  exit_status :: int

text \<open>The whole run for given \<open>N\<close> and \<open>size\<close>, ending in \<open>printf("%d\n", sink); return 0;\<close>\<close>

definition run :: "libc \<Rightarrow> int \<Rightarrow> int \<Rightarrow> fault + outcome" where
  "run env N sz =
     (case bench env N sz of
        Inl f \<Rightarrow> Inl f
      | Inr st \<Rightarrow> Inr \<lparr>stdout = print_line (sint (sink st)), exit_status = 0\<rparr>)"

definition main :: "libc \<Rightarrow> string list \<Rightarrow> fault + outcome" where
  "main env argv = (case parse_args env argv of (N, sz) \<Rightarrow> run env N sz)"

subsection \<open>Reference values\<close>

text \<open>
  The value of a sum of integers once it is reduced modulo \<open>2^32\<close> and read as a signed
  32-bit number, and the sum \<open>0 + 1 + ... + (n - 1)\<close> in closed form.
\<close>

definition wrap32 :: "int \<Rightarrow> int" where
  "wrap32 x = (let r = x mod 2 ^ 32 in if r < 2 ^ 31 then r else r - 2 ^ 32)"

definition tri :: "nat \<Rightarrow> nat" where
  "tri n = n * (n - 1) div 2"

text \<open>What \<open>A[k]\<close> holds, read as a signed number, when the second loop is over.\<close>

definition final_A :: "libc \<Rightarrow> int \<Rightarrow> int \<Rightarrow> nat \<Rightarrow> int option" where
  "final_A env N sz k =
     (case bench env N sz of
        Inl f \<Rightarrow> None
      | Inr st \<Rightarrow>
          (case A_mem st of
             None \<Rightarrow> None
           | Some blk \<Rightarrow> if k < length blk then Some (sint (blk ! k)) else None))"

subsection \<open>A sample C library\<close>

text \<open>
  A decimal \<open>atol\<close> (white space, an optional sign, digits up to the first other
  character; a value outside \<open>long\<close>, which C leaves undefined, wraps), a \<open>malloc\<close> that
  grants up to 16 GiB, and a fresh block filled with a non-zero pattern. A second
  library grants 4 KiB and fills the block differently. They serve to run the program
  on concrete command lines.
\<close>

definition is_space :: "char \<Rightarrow> bool" where
  "is_space c \<longleftrightarrow> c \<in> set [CHR '' '', CHR 0x09, CHR 0x0A, CHR 0x0B, CHR 0x0C, CHR 0x0D]"

definition is_digit :: "char \<Rightarrow> bool" where
  "is_digit c \<longleftrightarrow> (48::nat) \<le> of_char c \<and> of_char c \<le> (57::nat)"

fun digits_value :: "nat \<Rightarrow> string \<Rightarrow> nat" where
  "digits_value acc [] = acc"
| "digits_value acc (c # cs) =
     (if is_digit c then digits_value (10 * acc + (of_char c - 48)) cs else acc)"

definition atol_dec :: "string \<Rightarrow> long" where
  "atol_dec s =
     (case dropWhile is_space s of
        [] \<Rightarrow> 0
      | c # cs \<Rightarrow>
          if c = CHR ''-'' then word_of_int (- int (digits_value 0 cs))
          else if c = CHR ''+'' then word_of_nat (digits_value 0 cs)
          else word_of_nat (digits_value 0 (c # cs)))"

definition sample_libc :: libc where
  "sample_libc =
     \<lparr>atol = atol_dec, malloc_ok = (\<lambda>n. n \<le> 2 ^ 34), garbage = (\<lambda>k. 0xDEADBEEF)\<rparr>"

definition small_libc :: libc where
  "small_libc = \<lparr>atol = atol_dec, malloc_ok = (\<lambda>n. n \<le> 4096), garbage = (\<lambda>k. of_nat k)\<rparr>"

section \<open>Properties of the loops\<close>

subsection \<open>Arithmetic\<close>

lemma smod_nonneg: "0 \<le> i \<Longrightarrow> 0 < sz \<Longrightarrow> (i::int) smod sz = i mod sz"
  by (simp add: smod_int_alt_def sgn_if)

lemma size_bytes_small: "0 \<le> sz \<Longrightarrow> sz < 2 ^ 62 \<Longrightarrow> size_bytes sz = 4 * nat sz"
  by (simp add: size_bytes_def sizeof_int_def nat_mult_distrib)

lemma size_bytes_bound: "size_bytes sz div sizeof_int < 2 ^ 62"
proof -
  have "(sz * 4) mod 2 ^ 64 < 2 ^ 64" by simp
  then have "size_bytes sz < 2 ^ 64"
    by (simp add: size_bytes_def sizeof_int_def nat_less_iff)
  then show ?thesis by (simp add: sizeof_int_def)
qed

lemma tri_0: "tri 0 = 0"
  by (simp add: tri_def)

lemma tri_Suc: "tri (Suc r) = tri r + r"
proof -
  have "Suc r * r = r * (r - 1) + r * 2" by (cases r) simp_all
  then have "Suc r * r div 2 = (r * (r - 1) + r * 2) div 2" by simp
  also have "\<dots> = r * (r - 1) div 2 + r" by simp
  finally show ?thesis by (simp add: tri_def)
qed

lemma sum_mod_closed:
  "0 < s \<Longrightarrow> (\<Sum>j = 0..<n. j mod s) = (n div s) * tri s + tri (n mod s)"
proof (induction n)
  case 0
  then show ?case by (simp add: tri_0)
next
  case (Suc n)
  show ?case
  proof (cases "Suc (n mod s) = s")
    case True
    then have "tri s = tri (n mod s) + n mod s"
      using tri_Suc [of "n mod s"] by simp
    with True Suc show ?thesis
      by (simp add: mod_Suc div_Suc tri_0)
  next
    case False
    with Suc show ?thesis
      by (simp add: mod_Suc div_Suc tri_Suc)
  qed
qed

lemma sum_below_closed: "n \<le> s \<Longrightarrow> (\<Sum>j = 0..<n. j mod s) = tri n"
proof (induction n)
  case 0
  then show ?case by (simp add: tri_0)
next
  case (Suc n)
  then show ?case by (simp add: tri_Suc)
qed

lemma int_tri: "0 \<le> N \<Longrightarrow> int (tri (nat N)) = N * (N - 1) div 2"
proof (cases "N = 0")
  case True
  then show ?thesis by (simp add: tri_0)
next
  case False
  assume "0 \<le> N"
  with False have "int (nat N - 1) = N - 1" by (simp add: of_nat_diff)
  with \<open>0 \<le> N\<close> show ?thesis by (simp add: tri_def zdiv_int)
qed

lemma sint_word32_of_int: "sint (word_of_int x :: 32 word) = wrap32 x"
proof -
  let ?r = "x mod 2 ^ 32"
  have r: "0 \<le> ?r" "?r < 2 ^ 32" by simp_all
  have e: "(x + 2 ^ 31) mod 2 ^ 32 = (?r + 2 ^ 31) mod 2 ^ 32"
    by (simp add: mod_add_left_eq)
  show ?thesis
  proof (cases "?r < 2 ^ 31")
    case True
    then have "(?r + 2 ^ 31) mod 2 ^ 32 = ?r + 2 ^ 31"
      using r by (intro mod_pos_pos_trivial) simp_all
    with True e show ?thesis by (simp add: int_word_sint wrap32_def)
  next
    case False
    have "(?r + 2 ^ 31) mod 2 ^ 32 = (?r + 2 ^ 31 - 2 ^ 32) mod 2 ^ 32"
      using minus_mod_self2 [of "?r + 2 ^ 31" "2 ^ 32"] by simp
    also have "\<dots> = ?r + 2 ^ 31 - 2 ^ 32"
      using False r by (intro mod_pos_pos_trivial) simp_all
    finally show ?thesis using False e by (simp add: int_word_sint wrap32_def)
  qed
qed

lemma wrap32_id: "- (2 ^ 31) \<le> x \<Longrightarrow> x < 2 ^ 31 \<Longrightarrow> wrap32 x = x"
proof -
  assume a: "- (2 ^ 31) \<le> x" "x < 2 ^ 31"
  have "sint (word_of_int x :: 32 word) = x"
    using a by (simp add: sint_sbintrunc' signed_take_bit_int_eq_self)
  then show ?thesis by (simp add: sint_word32_of_int)
qed

subsection \<open>The initialisation loop\<close>

lemma init_loop_fill:
  "0 \<le> i \<Longrightarrow> i \<le> sz \<Longrightarrow> int (length blk) = sz \<Longrightarrow>
   init_loop i sz (Some blk) =
     Inr (Some (take (nat i) blk @ map of_nat [nat i..<nat sz]))"
proof (induction "nat (sz - i)" arbitrary: i blk)
  case 0
  then have "i = sz" by simp
  with 0 show ?case by (simp add: init_loop.simps)
next
  case (Suc n)
  then have lt: "i < sz" by linarith
  let ?blk = "blk[nat i := word_of_int i]"
  have st: "store (Some blk) i (word_of_int i) = Inr (Some ?blk)"
    using Suc.prems lt by (simp add: store_def)
  have ih: "init_loop (i + 1) sz (Some ?blk) =
     Inr (Some (take (nat (i + 1)) ?blk @ map of_nat [nat (i + 1)..<nat sz]))"
    using Suc.hyps(2) Suc.prems lt by (intro Suc.hyps(1)) auto
  have n1: "nat (i + 1) = Suc (nat i)" using Suc.prems by simp
  have len: "nat i < length blk" using Suc.prems lt by linarith
  have tk: "take (Suc (nat i)) ?blk = take (nat i) blk @ [word_of_int i]"
    using len by (simp add: take_Suc_conv_app_nth)
  have up: "[nat i..<nat sz] = nat i # [Suc (nat i)..<nat sz]"
    using Suc.prems lt by (simp add: upt_conv_Cons)
  show ?case
    using lt Suc.prems(1) by (subst init_loop.simps) (simp add: st ih n1 tk up)
qed

lemma init_loop_skip: "sz \<le> i \<Longrightarrow> init_loop i sz A = Inr A"
  by (subst init_loop.simps) simp

lemma init_loop_null: "i < sz \<Longrightarrow> init_loop i sz None = Inl NullDeref"
  by (subst init_loop.simps) (simp add: store_def)

lemma init_loop_short:
  "0 \<le> i \<Longrightarrow> i \<le> int (length blk) \<Longrightarrow> int (length blk) < sz \<Longrightarrow>
   init_loop i sz (Some blk) = Inl OutOfBounds"
proof (induction "nat (int (length blk) - i)" arbitrary: i blk)
  case 0
  then have "i = int (length blk)" by simp
  with 0 show ?case by (subst init_loop.simps) (simp add: store_def)
next
  case (Suc n)
  then have lt: "i < int (length blk)" by linarith
  let ?blk = "blk[nat i := word_of_int i]"
  have st: "store (Some blk) i (word_of_int i) = Inr (Some ?blk)"
    using Suc.prems lt by (simp add: store_def)
  have "init_loop (i + 1) sz (Some ?blk) = Inl OutOfBounds"
    using Suc.hyps(2) Suc.prems lt by (intro Suc.hyps(1)) auto
  then show ?case
    using lt Suc.prems by (subst init_loop.simps) (simp add: st)
qed

subsection \<open>The access loop\<close>

lemma access_loop_skip: "N \<le> i \<Longrightarrow> access_loop i N sz st = Inr st"
  by (subst access_loop.simps) simp

lemma access_loop_sum:
  assumes "0 < sz" and "int (length blk) = sz" and "A_mem st = Some blk" and "0 \<le> i"
  shows "access_loop i N sz st =
           Inr (st\<lparr>sink := sink st + (\<Sum>j = nat i..<nat N. blk ! (j mod nat sz))\<rparr>)"
  using assms(3,4)
proof (induction "nat (N - i)" arbitrary: i st)
  case 0
  then have "\<not> i < N" by simp
  then show ?case by (subst access_loop.simps) simp
next
  case (Suc n)
  then have lt: "i < N" by linarith
  have idx: "i smod sz = i mod sz" using Suc.prems assms(1) by (simp add: smod_nonneg)
  have rng: "0 \<le> i mod sz" "i mod sz < sz" using assms(1) by simp_all
  have nm: "nat (i mod sz) = nat i mod nat sz"
    using Suc.prems assms(1) by (simp add: nat_mod_distrib)
  have ld: "load (A_mem st) (i smod sz) = Inr (blk ! (nat i mod nat sz))"
    using rng assms(2) Suc.prems(1) by (simp add: load_def idx nm)
  let ?st = "st\<lparr>sink := sink st + blk ! (nat i mod nat sz)\<rparr>"
  have ih: "access_loop (i + 1) N sz ?st =
     Inr (?st\<lparr>sink := sink ?st + (\<Sum>j = nat (i + 1)..<nat N. blk ! (j mod nat sz))\<rparr>)"
    using Suc.hyps(2) Suc.prems lt by (intro Suc.hyps(1)) auto
  have n1: "nat (i + 1) = Suc (nat i)" using Suc.prems by simp
  have sm: "(\<Sum>j = nat i..<nat N. blk ! (j mod nat sz)) =
            blk ! (nat i mod nat sz) + (\<Sum>j = Suc (nat i)..<nat N. blk ! (j mod nat sz))"
    using lt Suc.prems by (intro sum.atLeast_Suc_lessThan) linarith
  show ?case
    using lt assms(1) by (subst access_loop.simps) (simp add: ld ih n1 sm add.assoc)
qed

lemma access_loop_frame: "access_loop i N sz st = Inr st' \<Longrightarrow> A_mem st' = A_mem st"
proof (induction i N sz st rule: access_loop.induct)
  case (1 i N sz st)
  show ?case
  proof (cases "i < N")
    case False
    with "1.prems" show ?thesis by (simp add: access_loop_skip)
  next
    case True
    from "1.prems" True have nz: "sz \<noteq> 0"
      by (subst (asm) access_loop.simps) (auto split: if_splits)
    from "1.prems" True nz obtain v where
      ld: "load (A_mem st) (i smod sz) = Inr v" and
      rec: "access_loop (i + 1) N sz (st\<lparr>sink := sink st + v\<rparr>) = Inr st'"
      by (subst (asm) access_loop.simps) (auto split: sum.splits)
    from "1.IH" [OF True nz ld rec] show ?thesis by simp
  qed
qed

subsection \<open>The whole run\<close>

lemma malloc_block:
  assumes "0 \<le> sz" and "sz < 2 ^ 62" and "malloc_ok env (size_bytes sz)"
  shows "malloc env (size_bytes sz) = Some (map (garbage env) [0..<nat sz])"
proof -
  have "size_bytes sz div sizeof_int = nat sz"
    using assms(1,2) by (simp add: size_bytes_small sizeof_int_def)
  with assms(3) show ?thesis by (simp add: malloc_def)
qed

lemma init_result:
  assumes "0 \<le> sz" and "sz < 2 ^ 62" and "malloc_ok env (size_bytes sz)"
  shows "init_loop 0 sz (malloc env (size_bytes sz)) = Inr (Some (map of_nat [0..<nat sz]))"
  using assms init_loop_fill [of 0 sz "map (garbage env) [0..<nat sz]"]
  by (simp add: malloc_block)

lemma sum_index_words:
  "0 < s \<Longrightarrow> (\<Sum>j = 0..<n. (map of_nat [0..<s] :: cint list) ! (j mod s)) =
     of_nat (\<Sum>j = 0..<n. j mod s)"
  by (simp add: nth_map)

lemma bench_result:
  assumes "1 \<le> sz" and "sz < 2 ^ 62" and "malloc_ok env (size_bytes sz)"
  shows "bench env N sz =
           Inr \<lparr>A_mem = Some (map of_nat [0..<nat sz]),
                sink = of_nat (\<Sum>j = 0..<nat N. j mod nat sz)\<rparr>"
proof -
  let ?blk = "map of_nat [0..<nat sz] :: cint list"
  let ?st = "\<lparr>A_mem = Some ?blk, sink = 0\<rparr>"
  have i: "init_loop 0 sz (malloc env (size_bytes sz)) = Inr (Some ?blk)"
    using assms by (intro init_result) simp_all
  have a: "access_loop 0 N sz ?st =
      Inr (?st\<lparr>sink := sink ?st + (\<Sum>j = nat 0..<nat N. ?blk ! (j mod nat sz))\<rparr>)"
    using assms(1) by (intro access_loop_sum) simp_all
  have s: "(\<Sum>j = 0..<nat N. ?blk ! (j mod nat sz)) = of_nat (\<Sum>j = 0..<nat N. j mod nat sz)"
    using assms(1) by (intro sum_index_words) simp
  have "bench env N sz = access_loop 0 N sz ?st"
    by (simp only: bench_def i sum.case)
  also have "\<dots> = Inr (?st\<lparr>sink := of_nat (\<Sum>j = 0..<nat N. j mod nat sz)\<rparr>)"
    using s by (simp only: a) simp
  finally show ?thesis by simp
qed

lemma sint_of_nat32: "sint (of_nat n :: cint) = wrap32 (int n)"
  using sint_word32_of_int [of "int n"] by simp

lemma run_result:
  assumes "1 \<le> sz" and "sz < 2 ^ 62" and "malloc_ok env (size_bytes sz)"
  shows "run env N sz =
           Inr \<lparr>stdout = print_line (wrap32 (int (\<Sum>j = 0..<nat N. j mod nat sz))),
                exit_status = 0\<rparr>"
  by (simp only: run_def bench_result [OF assms] sum.case state.simps sint_of_nat32)

lemma sum_upto_tri: "(\<Sum>k = 0..<n. int k) = int (tri n)"
  by (induction n) (simp_all add: tri_0 tri_Suc)

lemma print_line_0: "print_line 0 = [CHR ''0'', CHR 0x0A]"
  by (simp add: print_line_def printf_d_def dec_nat.simps digit_char_def)

lemma run_completes_allocated:
  assumes "1 \<le> sz" and "run env N sz = Inr out"
  shows "sz < 2 ^ 62 \<and> malloc_ok env (size_bytes sz)"
proof -
  have i: "\<exists>A. init_loop 0 sz (malloc env (size_bytes sz)) = Inr A"
    using assms(2) by (auto simp: run_def bench_def split: sum.splits)
  have ok: "malloc_ok env (size_bytes sz)"
  proof (rule ccontr)
    assume "\<not> malloc_ok env (size_bytes sz)"
    then have "malloc env (size_bytes sz) = None" by (simp add: malloc_def)
    with i assms(1) show False by (simp add: init_loop_null)
  qed
  have "sz < 2 ^ 62"
  proof (rule ccontr)
    assume big: "\<not> sz < 2 ^ 62"
    let ?blk = "map (garbage env) [0..<size_bytes sz div sizeof_int]"
    have "int (length ?blk) < 2 ^ 62" using size_bytes_bound [of sz] by simp
    with big have "int (length ?blk) < sz" by linarith
    then have "init_loop 0 sz (Some ?blk) = Inl OutOfBounds"
      by (intro init_loop_short) simp_all
    with i ok show False by (simp add: malloc_def)
  qed
  with ok show ?thesis by simp
qed

lemma sum_mod_int:
  assumes "1 \<le> S" and "0 \<le> N"
  shows "int (\<Sum>j = 0..<nat N. j mod nat S) =
           (N div S) * (S * (S - 1) div 2) + (\<Sum>k = 0..<nat (N mod S). int k)"
proof -
  have s: "0 < nat S" using assms(1) by simp
  have d: "int (nat N div nat S) = N div S"
    using assms by (simp add: zdiv_int)
  have m: "nat N mod nat S = nat (N mod S)"
    using assms by (simp add: nat_mod_distrib)
  have t: "int (tri (nat S)) = S * (S - 1) div 2"
    using assms(1) by (simp add: int_tri)
  have "int (\<Sum>j = 0..<nat N. j mod nat S) =
          int (nat N div nat S) * int (tri (nat S)) + int (tri (nat N mod nat S))"
    by (simp only: sum_mod_closed [OF s] of_nat_add of_nat_mult)
  then show ?thesis by (simp only: d m t sum_upto_tri)
qed

lemma sint_sum_words:
  "sint (\<Sum>i\<in>I. (f i :: cint)) = wrap32 (\<Sum>i\<in>I. sint (f i))"
proof -
  have "(\<Sum>i\<in>I. f i) = word_of_int (\<Sum>i\<in>I. sint (f i))" by simp
  then show ?thesis by (simp only: sint_word32_of_int)
qed

lemma main_example:
  "main sample_libc [''micro_load'', ''7'', ''3''] =
     Inr \<lparr>stdout = [CHR ''6'', CHR 0x0A], exit_status = 0\<rparr>"
proof -
  have a: "atol sample_libc ''7'' = 7" "atol sample_libc ''3'' = 3"
    by (simp_all add: sample_libc_def atol_dec_def is_space_def is_digit_def)
  have g: "malloc_ok sample_libc (size_bytes 3)"
    by (simp add: sample_libc_def size_bytes_def sizeof_int_def)
  have s: "int (\<Sum>j = 0..<nat 7. j mod nat 3) = 6"
    using sum_mod_closed [of 3 7] by (simp add: tri_def)
  have "run sample_libc 7 3 =
      Inr \<lparr>stdout = print_line (wrap32 (int (\<Sum>j = 0..<nat 7. j mod nat 3))), exit_status = 0\<rparr>"
    using g by (intro run_result) simp_all
  then have "run sample_libc 7 3 = Inr \<lparr>stdout = print_line (wrap32 6), exit_status = 0\<rparr>"
    by (simp only: s)
  then show ?thesis
    by (simp add: main_def parse_args_def a wrap32_def print_line_def printf_d_def
        dec_nat.simps digit_char_def)
qed

section \<open>The claims\<close>

text \<open>
  The program checks neither the result of \<open>malloc\<close> nor the product \<open>size * sizeof(int)\<close>,
  so a statement about what is printed for \<open>S \<ge> 1\<close> is about a run in which the buffer
  exists: the product fits \<open>size_t\<close> (\<open>S < 2^62\<close>) and \<open>malloc\<close> grants the request.
  Otherwise the first store of the initialisation loop, or the first one behind the
  block, is a fault and nothing is printed.
\<close>

text \<open>
  C1 (as amended). For \<open>1 \<le> N \<le> S\<close> the program prints \<open>N * (N - 1) / 2\<close> reduced
  modulo \<open>2^32\<close> and read as a signed 32-bit number; this is \<open>N * (N - 1) / 2\<close> itself
  as long as \<open>N \<le> 65536\<close>.
\<close>

theorem below_size_output:
  assumes "1 \<le> N" and "N \<le> S" and "S < 2 ^ 62" and "malloc_ok env (size_bytes S)"
  shows "run env N S =
           Inr \<lparr>stdout = print_line (wrap32 (N * (N - 1) div 2)), exit_status = 0\<rparr> \<and>
         (N \<le> 65536 \<longrightarrow> wrap32 (N * (N - 1) div 2) = N * (N - 1) div 2)"
proof
  have "nat N \<le> nat S" using assms(2) by simp
  then have "(\<Sum>j = 0..<nat N. j mod nat S) = tri (nat N)" by (rule sum_below_closed)
  moreover have "int (tri (nat N)) = N * (N - 1) div 2" using assms(1) by (simp add: int_tri)
  ultimately show "run env N S =
      Inr \<lparr>stdout = print_line (wrap32 (N * (N - 1) div 2)), exit_status = 0\<rparr>"
    using assms by (simp add: run_result)
next
  show "N \<le> 65536 \<longrightarrow> wrap32 (N * (N - 1) div 2) = N * (N - 1) div 2"
  proof
    assume le: "N \<le> 65536"
    have "N * (N - 1) \<le> 65536 * 65535"
      using assms(1) le by (intro mult_mono) simp_all
    then have up: "N * (N - 1) div 2 < 2 ^ 31" by simp
    have "0 \<le> N * (N - 1)" using assms(1) by simp
    then have "0 \<le> N * (N - 1) div 2" by simp
    with up show "wrap32 (N * (N - 1) div 2) = N * (N - 1) div 2"
      by (intro wrap32_id) simp_all
  qed
qed

theorem below_size_output_witness:
  "(1::int) \<le> 3 \<and> (3::int) \<le> 5 \<and> (5::int) < 2 ^ 62 \<and> malloc_ok sample_libc (size_bytes 5) \<and>
   run sample_libc 3 5 = Inr \<lparr>stdout = [CHR ''3'', CHR 0x0A], exit_status = 0\<rparr>"
  using below_size_output [of 3 5 sample_libc]
  by (simp add: sample_libc_def size_bytes_def sizeof_int_def wrap32_def print_line_def
      printf_d_def dec_nat.simps digit_char_def)

text \<open>
  C1 as it is written fails at \<open>N = S = 65537\<close>: the sum \<open>2147516416\<close> does not fit an
  \<open>int\<close> and the program prints \<open>-2147450880\<close>.
\<close>

theorem below_size_exact_counterexample:
  "(1::int) \<le> 65537 \<and> (65537::int) \<le> 65537 \<and>
   run sample_libc 65537 65537 =
     Inr \<lparr>stdout = print_line (- 2147450880), exit_status = 0\<rparr> \<and>
   run sample_libc 65537 65537 \<noteq>
     Inr \<lparr>stdout = print_line (65537 * (65537 - 1) div 2), exit_status = 0\<rparr>"
proof -
  have g: "malloc_ok sample_libc (size_bytes 65537)"
    by (simp add: sample_libc_def size_bytes_def sizeof_int_def)
  have "(\<Sum>j = 0..<nat 65537. j mod nat 65537) = tri (nat 65537)"
    by (rule sum_below_closed) simp
  moreover have "int (tri (nat 65537)) = 2147516416"
    by (simp add: tri_def)
  ultimately have "run sample_libc 65537 65537 =
      Inr \<lparr>stdout = print_line (wrap32 2147516416), exit_status = 0\<rparr>"
    using g by (simp add: run_result)
  moreover have "wrap32 2147516416 = - 2147450880" by (simp add: wrap32_def)
  moreover have "print_line (- 2147450880) \<noteq> print_line (65537 * (65537 - 1) div 2)"
    by (simp add: print_line_def printf_d_def dec_nat.simps digit_char_def)
  ultimately show ?thesis by simp
qed

text \<open>
  C2 (as amended). For \<open>S \<ge> 1\<close> and \<open>N > S\<close> the program prints
  \<open>floor(N/S) * (S * (S - 1) / 2) + (0 + 1 + ... + ((N mod S) - 1))\<close> reduced modulo \<open>2^32\<close>
  and read as a signed 32-bit number; this is the sum itself as long as it is below \<open>2^31\<close>.
\<close>

theorem wraparound_output:
  assumes "1 \<le> S" and "S < N" and "S < 2 ^ 62" and "malloc_ok env (size_bytes S)"
  shows "run env N S =
           Inr \<lparr>stdout = print_line (wrap32 ((N div S) * (S * (S - 1) div 2) +
                                              (\<Sum>k = 0..<nat (N mod S). int k))),
                exit_status = 0\<rparr> \<and>
         ((N div S) * (S * (S - 1) div 2) + (\<Sum>k = 0..<nat (N mod S). int k) < 2 ^ 31 \<longrightarrow>
            wrap32 ((N div S) * (S * (S - 1) div 2) + (\<Sum>k = 0..<nat (N mod S). int k)) =
              (N div S) * (S * (S - 1) div 2) + (\<Sum>k = 0..<nat (N mod S). int k))"
proof -
  let ?v = "(N div S) * (S * (S - 1) div 2) + (\<Sum>k = 0..<nat (N mod S). int k)"
  have n: "0 \<le> N" using assms(1,2) by simp
  have v: "int (\<Sum>j = 0..<nat N. j mod nat S) = ?v"
    using assms(1) n by (rule sum_mod_int)
  have r: "run env N S = Inr \<lparr>stdout = print_line (wrap32 ?v), exit_status = 0\<rparr>"
    using assms by (simp only: run_result v)
  have "0 \<le> ?v" by (simp only: v [symmetric] of_nat_0_le_iff)
  then have "?v < 2 ^ 31 \<longrightarrow> wrap32 ?v = ?v" by (simp add: wrap32_id)
  with r show ?thesis by simp
qed

theorem wraparound_output_witness:
  "(1::int) \<le> 3 \<and> (3::int) < 7 \<and> (3::int) < 2 ^ 62 \<and> malloc_ok sample_libc (size_bytes 3) \<and>
   run sample_libc 7 3 = Inr \<lparr>stdout = [CHR ''6'', CHR 0x0A], exit_status = 0\<rparr>"
  using wraparound_output [of 3 7 sample_libc]
  by (simp add: sample_libc_def size_bytes_def sizeof_int_def wrap32_def print_line_def
      printf_d_def dec_nat.simps digit_char_def)

text \<open>
  C2 as it is written fails at \<open>N = 65538\<close>, \<open>S = 65537\<close>: the one full cycle sums to
  \<open>2147516416\<close>, the partial cycle of \<open>N mod S = 1\<close> access adds the single term 0, and the
  program prints \<open>-2147450880\<close>.
\<close>

theorem wraparound_exact_counterexample:
  "(1::int) \<le> 65537 \<and> (65537::int) < 65538 \<and>
   run sample_libc 65538 65537 =
     Inr \<lparr>stdout = print_line (- 2147450880), exit_status = 0\<rparr> \<and>
   (65538::int) mod 65537 = 1 \<and>
   run sample_libc 65538 65537 \<noteq>
     Inr \<lparr>stdout = print_line ((65538 div 65537) * (65537 * (65537 - 1) div 2) + 0),
          exit_status = 0\<rparr>"
proof -
  have g: "malloc_ok sample_libc (size_bytes 65537)"
    by (simp add: sample_libc_def size_bytes_def sizeof_int_def)
  have "int (\<Sum>j = 0..<nat 65538. j mod nat 65537) =
          (65538 div 65537) * (65537 * (65537 - 1) div 2) + (\<Sum>k = 0..<nat (65538 mod 65537). int k)"
    by (rule sum_mod_int) simp_all
  also have "\<dots> = 2147516416" by simp
  finally have s: "int (\<Sum>j = 0..<nat 65538. j mod nat 65537) = 2147516416" .
  have "run sample_libc 65538 65537 =
      Inr \<lparr>stdout = print_line (wrap32 (int (\<Sum>j = 0..<nat 65538. j mod nat 65537))),
           exit_status = 0\<rparr>"
    using g by (intro run_result) simp_all
  then have "run sample_libc 65538 65537 =
      Inr \<lparr>stdout = print_line (wrap32 2147516416), exit_status = 0\<rparr>"
    by (simp only: s)
  moreover have "wrap32 2147516416 = - 2147450880" by (simp add: wrap32_def)
  moreover have "print_line (- 2147450880) \<noteq> print_line 2147516416"
    by (simp add: print_line_def printf_d_def dec_nat.simps digit_char_def)
  ultimately show ?thesis by simp
qed

text \<open>
  C3. For \<open>S \<ge> 1\<close>, two runs with the same \<open>N\<close> and \<open>S\<close> print the same line, whatever
  the C library does in each of them (what \<open>malloc\<close> leaves in the fresh block, how much
  it grants): runs that both reach \<open>printf\<close> agree, and both reach it when the buffer is
  allocated in both.
\<close>

theorem runs_agree:
  assumes "1 \<le> S"
  shows "(run e1 N S = Inr o1 \<and> run e2 N S = Inr o2 \<longrightarrow> o1 = o2) \<and>
         (S < 2 ^ 62 \<and> malloc_ok e1 (size_bytes S) \<and> malloc_ok e2 (size_bytes S) \<longrightarrow>
            (\<exists>out. run e1 N S = Inr out \<and> run e2 N S = Inr out))"
proof (intro conjI impI)
  assume r: "run e1 N S = Inr o1 \<and> run e2 N S = Inr o2"
  then have "S < 2 ^ 62 \<and> malloc_ok e1 (size_bytes S)" "S < 2 ^ 62 \<and> malloc_ok e2 (size_bytes S)"
    using assms by (auto dest: run_completes_allocated)
  then have "run e1 N S = run e2 N S"
    using assms by (simp add: run_result)
  with r show "o1 = o2" by auto
next
  assume "S < 2 ^ 62 \<and> malloc_ok e1 (size_bytes S) \<and> malloc_ok e2 (size_bytes S)"
  then show "\<exists>out. run e1 N S = Inr out \<and> run e2 N S = Inr out"
    using assms by (simp add: run_result)
qed

theorem runs_agree_witness:
  "(1::int) \<le> 3 \<and> (3::int) < 2 ^ 62 \<and>
   malloc_ok sample_libc (size_bytes 3) \<and> malloc_ok small_libc (size_bytes 3) \<and>
   garbage sample_libc 0 \<noteq> garbage small_libc 0 \<and>
   (\<exists>out. run sample_libc 7 3 = Inr out \<and> run small_libc 7 3 = Inr out)"
  using runs_agree [of 3 sample_libc 7 _ small_libc]
  by (simp add: sample_libc_def small_libc_def size_bytes_def sizeof_int_def)

text \<open>
  C4. For \<open>N = 0\<close> and \<open>S \<ge> 1\<close> the access loop leaves the state as it is (no read, \<open>sink\<close>
  still 0) and the program prints \<open>0\<close>.
\<close>

theorem zero_accesses_output:
  assumes "1 \<le> S" and "S < 2 ^ 62" and "malloc_ok env (size_bytes S)"
  shows "access_loop 0 0 S st = Inr st \<and>
         run env 0 S = Inr \<lparr>stdout = [CHR ''0'', CHR 0x0A], exit_status = 0\<rparr>"
  using assms by (simp add: access_loop_skip run_result wrap32_def print_line_0)

theorem zero_accesses_output_witness:
  "(1::int) \<le> 5 \<and> (5::int) < 2 ^ 62 \<and> malloc_ok sample_libc (size_bytes 5) \<and>
   run sample_libc 0 5 = Inr \<lparr>stdout = [CHR ''0'', CHR 0x0A], exit_status = 0\<rparr>"
  using zero_accesses_output [of 5 sample_libc]
  by (simp add: sample_libc_def size_bytes_def sizeof_int_def)

text \<open>
  C5. For \<open>S = 1\<close> and \<open>N \<ge> 0\<close> the program prints \<open>0\<close>: the buffer is the single element
  \<open>A[0] = 0\<close>, every index \<open>i % 1\<close> is 0, and \<open>sink\<close> ends at 0.
\<close>

theorem single_element_output:
  assumes "0 \<le> N" and "malloc_ok env (size_bytes 1)"
  shows "run env N 1 = Inr \<lparr>stdout = [CHR ''0'', CHR 0x0A], exit_status = 0\<rparr> \<and>
         bench env N 1 = Inr \<lparr>A_mem = Some [0], sink = 0\<rparr> \<and>
         (\<forall>i::int. i smod 1 = 0)"
proof (intro conjI allI)
  show "run env N 1 = Inr \<lparr>stdout = [CHR ''0'', CHR 0x0A], exit_status = 0\<rparr>"
    using assms(2) by (simp add: run_result wrap32_def print_line_0)
  show "bench env N 1 = Inr \<lparr>A_mem = Some [0], sink = 0\<rparr>"
    using assms(2) by (simp add: bench_result)
  show "i smod 1 = 0" for i :: int
    by (simp add: smod_int_alt_def)
qed

theorem single_element_output_witness:
  "(0::int) \<le> 9 \<and> malloc_ok sample_libc (size_bytes 1) \<and>
   run sample_libc 9 1 = Inr \<lparr>stdout = [CHR ''0'', CHR 0x0A], exit_status = 0\<rparr>"
  using single_element_output [of 9 sample_libc]
  by (simp add: sample_libc_def size_bytes_def sizeof_int_def)

text \<open>
  C6. Without arguments the program runs with \<open>N = 1000000\<close> and \<open>S = 10000000\<close>; with one
  argument, \<open>atol\<close> of it is \<open>N\<close> and \<open>S\<close> keeps its default; with two, \<open>atol\<close> of the first
  is \<open>N\<close> and \<open>atol\<close> of the second is \<open>S\<close>. (\<open>argv[0]\<close> is the program name.)
\<close>

theorem argument_handling:
  "parse_args env [prog] = (1000000, 10000000) \<and>
   parse_args env [prog, a] = (sint (atol env a), 10000000) \<and>
   parse_args env [prog, a, b] = (sint (atol env a), sint (atol env b)) \<and>
   main env [prog] = run env 1000000 10000000 \<and>
   main env [prog, a] = run env (sint (atol env a)) 10000000 \<and>
   main env [prog, a, b] = run env (sint (atol env a)) (sint (atol env b))"
  by (simp add: main_def parse_args_def)

text \<open>
  C7. For \<open>S \<ge> 1\<close> and \<open>i \<ge> 0\<close> the index \<open>i % S\<close> lies in \<open>[0, S)\<close>; with a buffer of \<open>S\<close>
  elements the read \<open>A[i % S]\<close> succeeds, and the access loop started at any such \<open>i\<close> ends
  without a fault.
\<close>

theorem access_in_bounds:
  assumes "1 \<le> S" and "0 \<le> i" and "A_mem st = Some blk" and "int (length blk) = S"
  shows "0 \<le> i smod S \<and> i smod S < S \<and>
         load (A_mem st) (i smod S) = Inr (blk ! nat (i smod S)) \<and>
         (\<exists>st'. access_loop i N S st = Inr st')"
proof -
  have m: "i smod S = i mod S" using assms(1,2) by (simp add: smod_nonneg)
  have r: "0 \<le> i mod S" "i mod S < S" using assms(1) by simp_all
  have l: "load (A_mem st) (i smod S) = Inr (blk ! nat (i smod S))"
    using r assms(3,4) by (simp add: load_def m)
  have "\<exists>st'. access_loop i N S st = Inr st'"
    using assms access_loop_sum [of S blk st i N] by simp
  with m r l show ?thesis by simp
qed

theorem access_in_bounds_witness:
  "(1::int) \<le> 3 \<and> (0::int) \<le> 7 \<and> (7::int) smod 3 = 1 \<and>
   load (Some [0, 1, 2]) (7 smod 3) = Inr 1 \<and>
   (\<exists>st'. access_loop 7 9 3 \<lparr>A_mem = Some [0, 1, 2], sink = 0\<rparr> = Inr st')"
  using access_in_bounds [of 3 7 "\<lparr>A_mem = Some [0, 1, 2], sink = 0\<rparr>" "[0, 1, 2]" 9]
  by simp

text \<open>
  C8 (as amended). The initialisation leaves in \<open>A[k]\<close> the index \<open>k\<close> converted to \<open>int\<close>, which
  is \<open>k\<close> itself for \<open>k < 2^31\<close>; the access loop changes no element of the buffer, so the
  buffer at the end of the run is the buffer the initialisation left.
\<close>

theorem buffer_kept_by_access_loop:
  assumes "1 \<le> S" and "S < 2 ^ 62" and "malloc_ok env (size_bytes S)"
  shows "\<exists>blk st.
           init_loop 0 S (malloc env (size_bytes S)) = Inr (Some blk) \<and>
           length blk = nat S \<and>
           (\<forall>k < nat S. blk ! k = word_of_int (int k) \<and>
                        (int k < 2 ^ 31 \<longrightarrow> sint (blk ! k) = int k)) \<and>
           bench env N S = Inr st \<and> A_mem st = Some blk \<and>
           (\<forall>i M st0 st'. access_loop i M S st0 = Inr st' \<longrightarrow> A_mem st' = A_mem st0)"
proof -
  let ?blk = "map of_nat [0..<nat S] :: cint list"
  have i: "init_loop 0 S (malloc env (size_bytes S)) = Inr (Some ?blk)"
    using assms by (intro init_result) simp_all
  have v: "?blk ! k = word_of_int (int k) \<and> (int k < 2 ^ 31 \<longrightarrow> sint (?blk ! k) = int k)"
    if "k < nat S" for k
  proof -
    have e: "?blk ! k = of_nat k" using that by simp
    have "int k < 2 ^ 31 \<longrightarrow> sint (of_nat k :: cint) = int k"
      by (simp add: sint_of_nat32 wrap32_id)
    with e show ?thesis by simp
  qed
  have b: "bench env N S = Inr \<lparr>A_mem = Some ?blk, sink = of_nat (\<Sum>j = 0..<nat N. j mod nat S)\<rparr>"
    using assms by (rule bench_result)
  have f: "\<forall>i M st0 st'. access_loop i M S st0 = Inr st' \<longrightarrow> A_mem st' = A_mem st0"
    by (auto dest: access_loop_frame)
  let ?st = "\<lparr>A_mem = Some ?blk, sink = of_nat (\<Sum>j = 0..<nat N. j mod nat S)\<rparr>"
  have "init_loop 0 S (malloc env (size_bytes S)) = Inr (Some ?blk) \<and>
        length ?blk = nat S \<and>
        (\<forall>k < nat S. ?blk ! k = word_of_int (int k) \<and>
                     (int k < 2 ^ 31 \<longrightarrow> sint (?blk ! k) = int k)) \<and>
        bench env N S = Inr ?st \<and> A_mem ?st = Some ?blk \<and>
        (\<forall>i M st0 st'. access_loop i M S st0 = Inr st' \<longrightarrow> A_mem st' = A_mem st0)"
    using i v b f by simp
  then show ?thesis by blast
qed

theorem buffer_kept_by_access_loop_witness:
  "(1::int) \<le> 3 \<and> (3::int) < 2 ^ 62 \<and> malloc_ok sample_libc (size_bytes 3) \<and>
   final_A sample_libc 7 3 2 = Some 2"
proof -
  have g: "malloc_ok sample_libc (size_bytes 3)"
    by (simp add: sample_libc_def size_bytes_def sizeof_int_def)
  from buffer_kept_by_access_loop [of 3 sample_libc 7, OF _ _ g]
  obtain blk st where "bench sample_libc 7 3 = Inr st" "A_mem st = Some blk" "length blk = nat 3"
    "\<forall>k < nat 3. blk ! k = word_of_int (int k) \<and> (int k < 2 ^ 31 \<longrightarrow> sint (blk ! k) = int k)"
    by auto
  then have "final_A sample_libc 7 3 2 = Some 2"
    by (simp add: final_A_def)
  with g show ?thesis by simp
qed

text \<open>
  C8 as it is written fails for a buffer of more than \<open>2^31\<close> elements: with
  \<open>S = 2147483649\<close> the element \<open>A[2147483648]\<close> holds \<open>-2147483648\<close> at exit.
\<close>

theorem buffer_holds_index_counterexample:
  "(1::int) \<le> 2147483649 \<and> (2147483648::nat) < nat 2147483649 \<and>
   final_A sample_libc 1 2147483649 2147483648 = Some (- 2147483648) \<and>
   final_A sample_libc 1 2147483649 2147483648 \<noteq> Some 2147483648"
proof -
  have g: "malloc_ok sample_libc (size_bytes 2147483649)"
    by (simp add: sample_libc_def size_bytes_def sizeof_int_def)
  have b: "bench sample_libc 1 2147483649 =
      Inr \<lparr>A_mem = Some (map of_nat [0..<nat 2147483649]),
           sink = of_nat (\<Sum>j = 0..<nat 1. j mod nat 2147483649)\<rparr>"
    using g by (intro bench_result) simp_all
  have "sint (of_nat 2147483648 :: cint) = - 2147483648"
    by (simp add: sint_of_nat32 wrap32_def)
  then have "final_A sample_libc 1 2147483649 2147483648 = Some (- 2147483648)"
    by (simp add: final_A_def b)
  then show ?thesis by simp
qed

text \<open>
  C9. For \<open>N \<ge> 0\<close> and \<open>S \<ge> 1\<close> the printed value is the sum over \<open>i\<close> in \<open>[0, N)\<close> of the
  buffer elements \<open>A[i mod S]\<close>, reduced modulo \<open>2^32\<close> and read as a signed 32-bit number.
\<close>

theorem accumulator_wraps:
  assumes "0 \<le> N" and "1 \<le> S" and "S < 2 ^ 62" and "malloc_ok env (size_bytes S)"
  shows "\<exists>blk st.
           bench env N S = Inr st \<and> A_mem st = Some blk \<and> length blk = nat S \<and>
           sint (sink st) = wrap32 (\<Sum>i = 0..<nat N. sint (blk ! (i mod nat S))) \<and>
           run env N S =
             Inr \<lparr>stdout = print_line (wrap32 (\<Sum>i = 0..<nat N. sint (blk ! (i mod nat S)))),
                  exit_status = 0\<rparr>"
proof -
  let ?blk = "map of_nat [0..<nat S] :: cint list"
  let ?st = "\<lparr>A_mem = Some ?blk, sink = 0\<rparr>"
  have i: "init_loop 0 S (malloc env (size_bytes S)) = Inr (Some ?blk)"
    using assms by (intro init_result) simp_all
  have a: "access_loop 0 N S ?st =
      Inr (?st\<lparr>sink := sink ?st + (\<Sum>j = nat 0..<nat N. ?blk ! (j mod nat S))\<rparr>)"
    using assms(2) by (intro access_loop_sum) simp_all
  let ?fin = "\<lparr>A_mem = Some ?blk, sink = (\<Sum>j = 0..<nat N. ?blk ! (j mod nat S))\<rparr>"
  have b: "bench env N S = Inr ?fin"
    by (simp only: bench_def i sum.case a) simp
  have s: "sint (sink ?fin) = wrap32 (\<Sum>i = 0..<nat N. sint (?blk ! (i mod nat S)))"
    by (simp only: state.simps sint_sum_words)
  have r: "run env N S =
      Inr \<lparr>stdout = print_line (wrap32 (\<Sum>i = 0..<nat N. sint (?blk ! (i mod nat S)))),
           exit_status = 0\<rparr>"
    by (simp only: run_def b sum.case s)
  have "bench env N S = Inr ?fin \<and> A_mem ?fin = Some ?blk \<and> length ?blk = nat S \<and>
        sint (sink ?fin) = wrap32 (\<Sum>i = 0..<nat N. sint (?blk ! (i mod nat S))) \<and>
        run env N S =
          Inr \<lparr>stdout = print_line (wrap32 (\<Sum>i = 0..<nat N. sint (?blk ! (i mod nat S)))),
               exit_status = 0\<rparr>"
    using b s r by simp
  then show ?thesis by blast
qed

theorem accumulator_wraps_witness:
  "(0::int) \<le> 7 \<and> (1::int) \<le> 3 \<and> (3::int) < 2 ^ 62 \<and> malloc_ok sample_libc (size_bytes 3) \<and>
   (\<exists>blk st.
      bench sample_libc 7 3 = Inr st \<and> A_mem st = Some blk \<and> length blk = nat 3 \<and>
      sint (sink st) = wrap32 (\<Sum>i = 0..<nat 7. sint (blk ! (i mod nat 3))) \<and>
      run sample_libc 7 3 =
        Inr \<lparr>stdout = print_line (wrap32 (\<Sum>i = 0..<nat 7. sint (blk ! (i mod nat 3)))),
             exit_status = 0\<rparr>)"
proof -
  have g: "malloc_ok sample_libc (size_bytes 3)"
    by (simp add: sample_libc_def size_bytes_def sizeof_int_def)
  from accumulator_wraps [of 7 3 sample_libc, OF _ _ _ g] g show ?thesis
    by simp
qed

text \<open>
  C10. When the first argument parses to a negative \<open>N\<close>, the access loop makes no
  iteration, and the program prints \<open>0\<close> and a newline and returns 0. The second loop is
  only reached when the first one is over: \<open>S \<le> 0\<close> (nothing to initialise), or the buffer
  is allocated.
\<close>

theorem negative_count_output:
  assumes "1 < length argv" and "sint (atol env (argv ! 1)) < 0"
    and "parse_args env argv = (N, S)"
    and "S \<le> 0 \<or> (S < 2 ^ 62 \<and> malloc_ok env (size_bytes S))"
  shows "N < 0 \<and> access_loop 0 N S st = Inr st \<and>
         main env argv = Inr \<lparr>stdout = [CHR ''0'', CHR 0x0A], exit_status = 0\<rparr>"
proof -
  have n: "N < 0"
    using assms(1,2,3) by (simp add: parse_args_def Let_def)
  then have a: "access_loop 0 N S st = Inr st" for st
    by (simp add: access_loop_skip)
  have r: "run env N S = Inr \<lparr>stdout = [CHR ''0'', CHR 0x0A], exit_status = 0\<rparr>"
  proof (cases "S \<le> 0")
    case True
    then have "bench env N S = Inr \<lparr>A_mem = malloc env (size_bytes S), sink = 0\<rparr>"
      by (simp add: bench_def init_loop_skip a)
    then show ?thesis by (simp add: run_def print_line_0)
  next
    case False
    with assms(4) have "1 \<le> S" "S < 2 ^ 62" "malloc_ok env (size_bytes S)" by simp_all
    then show ?thesis using n by (simp add: run_result wrap32_def print_line_0)
  qed
  from n a r assms(3) show ?thesis by (simp add: main_def)
qed

theorem negative_count_output_witness:
  "1 < length [''micro_load'', ''-5''] \<and>
   sint (atol sample_libc ([''micro_load'', ''-5''] ! 1)) < 0 \<and>
   parse_args sample_libc [''micro_load'', ''-5''] = (- 5, 10000000) \<and>
   malloc_ok sample_libc (size_bytes 10000000) \<and>
   main sample_libc [''micro_load'', ''-5''] =
     Inr \<lparr>stdout = [CHR ''0'', CHR 0x0A], exit_status = 0\<rparr>"
proof -
  have a: "atol sample_libc ''-5'' = - 5"
    by (simp add: sample_libc_def atol_dec_def is_space_def is_digit_def)
  have p: "parse_args sample_libc [''micro_load'', ''-5''] = (- 5, 10000000)"
    by (simp add: parse_args_def a)
  have g: "malloc_ok sample_libc (size_bytes 10000000)"
    by (simp add: sample_libc_def size_bytes_def sizeof_int_def)
  from negative_count_output [of "[''micro_load'', ''-5'']" sample_libc "- 5" 10000000, OF _ _ p]
    a p g show ?thesis by simp
qed

end
